theory Spec2Isabelle
  imports Main "HOL-Library.List_Lexorder" "HOL-Library.Char_ord" "HOL-Library.Sublist"
begin

section \<open>Data model of \<^verbatim>\<open>src/renderer/store/Download.ts\<close>\<close>

text \<open>
  \<^verbatim>\<open>TaskStatus\<close> is imported from \<^verbatim>\<open>./AbstractTask\<close>; the store uses the five members
  below. \<^verbatim>\<open>URLType\<close> comes from \<^verbatim>\<open>common/core/ls\<close>; the store uses \<^verbatim>\<open>file\<close> (here \<open>URLfile\<close>) and
  \<^verbatim>\<open>folder\<close> (here \<open>URLfolder\<close>); \<open>file\<close> is a keyword of the theory language.
\<close>

datatype TaskStatus = ready | pending | pause | fail | finish

datatype URLType = URLfile | URLfolder

text \<open>
  A JavaScript \<^verbatim>\<open>number\<close> holding a byte count. Only integral values and \<^verbatim>\<open>NaN\<close>
  (the value of \<^verbatim>\<open>Number(undefined)\<close>) are represented.
\<close>

datatype number = Num int | NaN

text \<open>
  Tasks, subtasks and abort controllers are JavaScript objects: they are shared by
  reference between the active list, the signal map and the suspended calls of
  \<^verbatim>\<open>start\<close>. The model keeps them in stores indexed by references.
\<close>

type_synonym ref = nat

text \<open>
  \<^verbatim>\<open>interface DownloadSubTask\<close>. The fields carry the prefix \<open>sub_\<close> because
  \<^verbatim>\<open>DownloadTask\<close> has fields of the same names.
\<close>

record DownloadSubTask =
  sub_url :: string
  sub_pwd :: "string option"
  sub_dir :: string
  sub_name :: string
  sub_resolve :: number
  sub_status :: TaskStatus
  sub_size :: number

text \<open>
  \<^verbatim>\<open>class DownloadTask\<close>. \<^verbatim>\<open>urlType\<close> is unset until \<^verbatim>\<open>initTask\<close> ran; \<^verbatim>\<open>tasks\<close>
  holds references to the subtask objects.
\<close>

record DownloadTask =
  url :: string
  urlType :: "URLType option"
  name :: string
  dir :: string
  pwd :: "string option"
  merge :: "bool option"
  tasks :: "ref list"

text \<open>The answer of \<^verbatim>\<open>lsShare(task)\<close>: \<^verbatim>\<open>{name, type, list}\<close>.\<close>

record ShareEntry =
  entry_url :: string
  entry_name :: string
  entry_size :: string
  entry_pwd :: "string option"

record ShareListing =
  ls_name :: string
  ls_type :: URLType
  ls_list :: "ShareEntry list"

text \<open>The validation request found in a challenge page by \<^verbatim>\<open>Matcher.parseValidateAjax\<close>.\<close>

record ajaxData =
  ajax_url :: string
  ajax_type :: string
  ajax_data :: "(string \<times> string) list"

text \<open>
  Pure helpers that the store imports from files outside \<^verbatim>\<open>src/\<close>
  (\<^verbatim>\<open>common/util\<close>, \<^verbatim>\<open>common/core/matcher\<close>) or from the JavaScript runtime
  (\<^verbatim>\<open>Number\<close> on a string, \<^verbatim>\<open>new URL(rel, base)\<close>). They are parameters of the
  model.
\<close>

record helpers =
  isSpecificFile :: "string \<Rightarrow> bool"
  restoreFileName :: "string \<Rightarrow> string"
  sizeToByte :: "string \<Rightarrow> number"
  NumberOfString :: "string \<Rightarrow> number"
  parseValidateAjax :: "string \<Rightarrow> ajaxData option"
  newURL :: "string \<Rightarrow> string \<Rightarrow> string"

text \<open>\<^verbatim>\<open>path.join(a, b)\<close>, without the normalisation of dots and doubled separators.\<close>

definition path_join :: "string \<Rightarrow> string \<Rightarrow> string" where
  "path_join a b = a @ ''/'' @ b"

section \<open>The store and its suspended calls\<close>

text \<open>
  A call of the asynchronous \<^verbatim>\<open>start\<close> (or of \<^verbatim>\<open>pushAndCheckList\<close>) that waits at
  an \<^verbatim>\<open>await\<close>, with the local variables it holds: the task, the subtask, the
  download url, the abort controller.
\<close>

datatype cont =
    AwaitInit ref
  | AwaitDownUrl ref ref
  | AwaitEnsureDir ref ref string
  | AwaitStream ref ref string
  | AwaitPipeline ref ref ref
  | AwaitFsRemove DownloadTask
  | AwaitPostProcess ref

text \<open>
  \<^verbatim>\<open>class Download\<close>: the fields \<^verbatim>\<open>taskSignal\<close>, \<^verbatim>\<open>list\<close>, \<^verbatim>\<open>finishList\<close>, \<^verbatim>\<open>dir\<close>
  (here \<open>downloads_dir\<close>), then the object stores, the suspended calls, the next
  unused reference, and a history of every assignment to a subtask's \<^verbatim>\<open>status\<close>
  (subtask, old value, new value) in the order the assignments happen.
\<close>

record Download =
  taskSignal :: "string \<rightharpoonup> ref"
  list :: "ref list"
  finishList :: "ref list"
  downloads_dir :: string
  taskObj :: "ref \<rightharpoonup> DownloadTask"
  subObj :: "ref \<rightharpoonup> DownloadSubTask"
  aborted :: "ref \<Rightarrow> bool"
  suspended :: "ref \<rightharpoonup> cont"
  fresh :: ref
  transitions :: "(ref \<times> TaskStatus \<times> TaskStatus) list"

definition new_store :: "string \<Rightarrow> Download" where
  "new_store d = \<lparr>taskSignal = Map.empty, list = [], finishList = [], downloads_dir = d,
     taskObj = Map.empty, subObj = Map.empty, aborted = (\<lambda>_. False),
     suspended = Map.empty, fresh = 0, transitions = []\<rparr>"

definition status_of :: "Download \<Rightarrow> ref \<Rightarrow> TaskStatus option" where
  "status_of st r = map_option sub_status (subObj st r)"

text \<open>\<^verbatim>\<open>subTask.status = v\<close>; a reference always points to an object, so the first
  case does not arise.\<close>

definition set_status :: "ref \<Rightarrow> TaskStatus \<Rightarrow> Download \<Rightarrow> Download" where
  "set_status r v st =
     (case subObj st r of
        None \<Rightarrow> st
      | Some S \<Rightarrow> st\<lparr>subObj := (subObj st)(r \<mapsto> S\<lparr>sub_status := v\<rparr>),
                     transitions := transitions st @ [(r, sub_status S, v)]\<rparr>)"

definition task_subs :: "Download \<Rightarrow> ref \<Rightarrow> ref list" where
  "task_subs st t = (case taskObj st t of None \<Rightarrow> [] | Some T \<Rightarrow> tasks T)"

definition task_url :: "Download \<Rightarrow> ref \<Rightarrow> string option" where
  "task_url st t = map_option url (taskObj st t)"

text \<open>\<^verbatim>\<open>this.list.find(item => item.url === url)\<close>\<close>

definition find_task :: "Download \<Rightarrow> string \<Rightarrow> ref option" where
  "find_task st u = List.find (\<lambda>t. task_url st t = Some u) (list st)"

text \<open>\<^verbatim>\<open>getList(filter)\<close>: the subtasks of all tasks of the active list, filtered.\<close>

definition getList :: "(DownloadSubTask \<Rightarrow> bool) \<Rightarrow> Download \<Rightarrow> ref list" where
  "getList f st =
     filter (\<lambda>r. case subObj st r of None \<Rightarrow> False | Some S \<Rightarrow> f S)
       (concat (map (task_subs st) (list st)))"

definition queue :: "Download \<Rightarrow> nat" where
  "queue st = length (getList (\<lambda>S. sub_status S = pending) st)"

text \<open>\<^verbatim>\<open>canStart(task)\<close> ignores its argument.\<close>

definition canStart :: "Download \<Rightarrow> bool" where
  "canStart st = (queue st < 3)"

text \<open>The getter \<^verbatim>\<open>DownloadTask.status\<close>.\<close>

definition task_status :: "Download \<Rightarrow> ref \<Rightarrow> TaskStatus" where
  "task_status st t =
     (if list_ex (\<lambda>r. status_of st r = Some pending) (task_subs st t) then pending
      else ready)"

definition suspend :: "cont \<Rightarrow> Download \<Rightarrow> Download" where
  "suspend c st = st\<lparr>suspended := (suspended st)(fresh st \<mapsto> c), fresh := Suc (fresh st)\<rparr>"

section \<open>Pause and removal\<close>

text \<open>
  \<^verbatim>\<open>abortTask(task)\<close>, called with a subtask. The promise it returns is resolved only
  in the branch without a controller (the other \<^verbatim>\<open>resolve()\<close> is commented out in
  the source); the boolean tells whether it is resolved.
\<close>

definition abortTask :: "ref \<Rightarrow> Download \<Rightarrow> Download \<times> bool" where
  "abortTask s st =
     (case subObj st s of
        None \<Rightarrow> (st, True)
      | Some S \<Rightarrow>
          (case taskSignal st (sub_url S) of
             Some c \<Rightarrow> (st\<lparr>aborted := (aborted st)(c := True),
                          taskSignal := (taskSignal st)(sub_url S := None)\<rparr>, False)
           | None \<Rightarrow> (st, True)))"

text \<open>The callback of \<^verbatim>\<open>tasks.map\<close> in \<^verbatim>\<open>pause\<close>, for one subtask.\<close>

definition pause_subTask :: "ref \<Rightarrow> Download \<times> bool \<Rightarrow> Download \<times> bool" where
  "pause_subTask s acc =
     (case acc of (st, resolved) \<Rightarrow>
        if status_of st s = Some ready \<or> status_of st s = Some pending
        then (case abortTask s (set_status s pause st) of
                (st', r) \<Rightarrow> (st', resolved \<and> r))
        else (st, resolved))"

text \<open>
  \<^verbatim>\<open>pause(url)\<close>: the state after the synchronous part (which is all of it), and
  whether the promise of \<^verbatim>\<open>Promise.all\<close> is ever resolved.
\<close>

definition pause_task :: "string \<Rightarrow> Download \<Rightarrow> Download \<times> bool" where
  "pause_task u st =
     (case find_task st u of
        None \<Rightarrow> (st, True)
      | Some t \<Rightarrow> fold pause_subTask (task_subs st t) (st, True))"

definition pauseAll :: "Download \<Rightarrow> Download" where
  "pauseAll st =
     fold (\<lambda>t s. case task_url s t of None \<Rightarrow> s | Some u \<Rightarrow> fst (pause_task u s)) (list st) st"

definition remove :: "string \<Rightarrow> Download \<Rightarrow> Download" where
  "remove u st =
     (let st1 = (case find_task st u of
                   None \<Rightarrow> st
                 | Some t \<Rightarrow> fold (\<lambda>s acc. fst (abortTask s acc)) (task_subs st t) st)
      in st1\<lparr>list := filter (\<lambda>t. task_url st1 t \<noteq> Some u) (list st1)\<rparr>)"

definition removeAll :: "Download \<Rightarrow> Download" where
  "removeAll st =
     (fold (\<lambda>t acc. fold (\<lambda>s acc'. fst (abortTask s acc')) (task_subs acc t) acc) (list st) st)
       \<lparr>list := []\<rparr>"

definition removeAllFinish :: "Download \<Rightarrow> Download" where
  "removeAllFinish st = st\<lparr>finishList := []\<rparr>"

section \<open>Starting a task\<close>

text \<open>
  The part of \<^verbatim>\<open>start\<close> from the search of a ready subtask to the first \<^verbatim>\<open>await\<close>
  of the \<^verbatim>\<open>try\<close> block (the call of \<^verbatim>\<open>pwdFileDownUrl\<close> or \<^verbatim>\<open>fileDownUrl\<close>).
\<close>

definition start_subTask :: "ref \<Rightarrow> Download \<Rightarrow> Download" where
  "start_subTask t st =
     (case List.find (\<lambda>r. status_of st r = Some ready) (task_subs st t) of
        None \<Rightarrow> st
      | Some s \<Rightarrow> suspend (AwaitDownUrl t s) (set_status s pending st))"

text \<open>The \<^verbatim>\<open>reset\<close> branch: \<^verbatim>\<open>task.tasks.forEach(...)\<close>.\<close>

definition reset_subTask :: "ref \<Rightarrow> Download \<Rightarrow> Download" where
  "reset_subTask r st =
     (if status_of st r = Some pause \<or> status_of st r = Some fail
      then set_status r ready st else st)"

text \<open>
  \<^verbatim>\<open>start(url, reset = false)\<close> up to its first \<^verbatim>\<open>await\<close>. A task without subtasks
  waits for \<^verbatim>\<open>initTask\<close> (that is, for \<^verbatim>\<open>lsShare\<close>).
\<close>

definition start :: "string \<Rightarrow> bool \<Rightarrow> Download \<Rightarrow> Download" where
  "start u reset st =
     (case find_task st u of
        None \<Rightarrow> st
      | Some t \<Rightarrow>
          if \<not> canStart st then st
          else if task_subs st t = [] then suspend (AwaitInit t) st
          else start_subTask t
                 (if reset then fold reset_subTask (task_subs st t) st else st))"

text \<open>\<^verbatim>\<open>checkTask()\<close>, with the guard \<^verbatim>\<open>this.list.length &&\<close> of the autorun.\<close>

definition checkTask :: "Download \<Rightarrow> Download" where
  "checkTask st =
     (case List.find (\<lambda>t. task_status st t = ready) (list st) of
        None \<Rightarrow> st
      | Some t \<Rightarrow>
          (case task_url st t of
             None \<Rightarrow> st
           | Some u \<Rightarrow> if u = [] then st else start u False st))"

text \<open>The callback of \<^verbatim>\<open>this.list.forEach\<close> in \<^verbatim>\<open>startAll\<close>.\<close>

definition startAll_task :: "ref \<Rightarrow> Download \<Rightarrow> Download" where
  "startAll_task t st =
     (let st1 = fold (\<lambda>r s. if status_of s r = Some pause then set_status r ready s else s)
                  (task_subs st t) st
      in case task_url st1 t of None \<Rightarrow> st1 | Some u \<Rightarrow> start u False st1)"

definition startAll :: "Download \<Rightarrow> Download" where
  "startAll st = fold startAll_task (list st) st"

section \<open>Admission\<close>

text \<open>The argument of \<^verbatim>\<open>addTask\<close>.\<close>

record options =
  opt_name :: string
  opt_url :: string
  opt_pwd :: "string option"
  opt_merge :: "bool option"

text \<open>
  The two errors thrown by \<^verbatim>\<open>pushAndCheckList\<close>: the task is already in the download
  list; the user declined to delete the existing file.
\<close>

datatype admission_error = DuplicateTask | AdmissionCancelled

text \<open>\<^verbatim>\<open>this.list.push(task)\<close>: the task object becomes shared from here on.\<close>

definition push_task :: "DownloadTask \<Rightarrow> Download \<Rightarrow> Download" where
  "push_task T st =
     st\<lparr>taskObj := (taskObj st)(fresh st \<mapsto> T), list := list st @ [fresh st],
        fresh := Suc (fresh st)\<rparr>"

text \<open>
  \<^verbatim>\<open>pushAndCheckList(task)\<close> up to its \<^verbatim>\<open>await fs.remove(name)\<close>. \<open>existsSync\<close> is
  the disk as \<^verbatim>\<open>fs.existsSync\<close> sees it and \<open>confirmed\<close> the answer to \<^verbatim>\<open>confirm\<close>.
  The result is the store and the error the promise is rejected with, if any.
\<close>

definition pushAndCheckList ::
  "helpers \<Rightarrow> DownloadTask \<Rightarrow> (string \<Rightarrow> bool) \<Rightarrow> bool \<Rightarrow> Download
     \<Rightarrow> Download \<times> admission_error option" where
  "pushAndCheckList P T existsSync confirmed st =
     (if find_task st (url T) \<noteq> None then (st, Some DuplicateTask)
      else if existsSync (restoreFileName P (path_join (dir T) (name T)))
      then (if \<not> confirmed then (st, Some AdmissionCancelled)
            else (suspend (AwaitFsRemove T) st, None))
      else (push_task T st, None))"

text \<open>
  \<^verbatim>\<open>addTask(options)\<close>. The source does not return the promise of
  \<^verbatim>\<open>pushAndCheckList\<close>; its rejection is the second component.
\<close>

definition addTask ::
  "helpers \<Rightarrow> options \<Rightarrow> (string \<Rightarrow> bool) \<Rightarrow> bool \<Rightarrow> Download
     \<Rightarrow> Download \<times> admission_error option" where
  "addTask P opts existsSync confirmed st =
     pushAndCheckList P
       \<lparr>url = opt_url opts, urlType = None,
        name = (if isSpecificFile P (opt_name opts) then restoreFileName P (opt_name opts)
                else opt_name opts),
        dir = downloads_dir st, pwd = opt_pwd opts, merge = opt_merge opts, tasks = []\<rparr>
       existsSync confirmed st"

section \<open>Opening the stream: the challenge page\<close>

text \<open>
  What the remote side does. \<open>open_stream n u\<close> is the first event of the stream that
  \<^verbatim>\<open>http.share.stream(u)\<close> opens as the \<open>n\<close>-th hop of one call of \<^verbatim>\<open>createStream\<close>:
  a response (headers and body), an error, or nothing at all. \<open>share_json n q\<close> is
  the outcome of the validation request \<open>q\<close> sent on that hop: the \<^verbatim>\<open>url\<close> of the
  JSON answer, or a failure.
\<close>

datatype stream_event =
    Response "string \<rightharpoonup> string" string
  | StreamError string
  | NoEvent

record validate_request =
  req_url :: string
  req_method :: string
  req_referer :: string
  req_form :: "(string \<times> string) list"

record network =
  open_stream :: "nat \<Rightarrow> string \<Rightarrow> stream_event"
  share_json :: "nat \<Rightarrow> validate_request \<Rightarrow> string + string"

text \<open>What \<^verbatim>\<open>createStream\<close> does towards the outside, in order.\<close>

datatype action =
    OpenStream string
  | StreamToText
  | Delay nat
  | Submit validate_request

text \<open>
  The promise of \<^verbatim>\<open>createStream\<close> is resolved with a stream (of which the model keeps
  the response headers) or rejected: with the fixed message of the challenge page
  that could not be parsed (a non-ASCII string literal in the source), or with the
  message of the stream's error.
\<close>

datatype stream_outcome =
    Resolved "string \<rightharpoonup> string"
  | ChallengeParseError
  | StreamFailed string

text \<open>
  \<^verbatim>\<open>createStream(downloadUrl)\<close>. The result \<open>None\<close> is a promise that is never
  settled: the stream stays silent, the validation request fails inside the
  \<^verbatim>\<open>async\<close> listener (whose rejection nobody handles), or the remote side answers
  every hop with another challenge page. \<open>acts\<close> collects the actions so far.
\<close>

partial_function (option) createStream ::
  "helpers \<Rightarrow> network \<Rightarrow> nat \<Rightarrow> action list \<Rightarrow> string
     \<Rightarrow> (action list \<times> stream_outcome) option" where
  "createStream P net n acts downloadUrl =
     (case open_stream net n downloadUrl of
        NoEvent \<Rightarrow> None
      | StreamError msg \<Rightarrow> Some (acts @ [OpenStream downloadUrl], StreamFailed msg)
      | Response headers html \<Rightarrow>
          if headers ''content-type'' = Some ''text/html''
          then (case parseValidateAjax P html of
                  None \<Rightarrow> Some (acts @ [OpenStream downloadUrl, StreamToText],
                                ChallengeParseError)
                | Some ajax \<Rightarrow>
                    (let q = \<lparr>req_url = newURL P (ajax_url ajax) downloadUrl,
                              req_method = ajax_type ajax,
                              req_referer = downloadUrl,
                              req_form = ajax_data ajax\<rparr>
                     in case share_json net n q of
                          Inl err \<Rightarrow> None
                        | Inr u \<Rightarrow>
                            createStream P net (Suc n)
                              (acts @ [OpenStream downloadUrl, StreamToText, Delay 2000,
                                       Submit q])
                              u))
          else Some (acts @ [OpenStream downloadUrl], Resolved headers))"

declare createStream.simps [code]

section \<open>Resuming a suspended call of start\<close>

text \<open>A value is truthy as a header: present and not the empty string.\<close>

definition truthy :: "string option \<Rightarrow> bool" where
  "truthy h = (h \<noteq> None \<and> h \<noteq> Some [])"

text \<open>\<^verbatim>\<open>Number(headers['content-length'])\<close>\<close>

definition Number :: "helpers \<Rightarrow> string option \<Rightarrow> number" where
  "Number P h = (case h of None \<Rightarrow> NaN | Some v \<Rightarrow> NumberOfString P v)"

text \<open>The header handling of \<^verbatim>\<open>start\<close> after the stream is open.\<close>

definition header_size ::
  "helpers \<Rightarrow> (string \<rightharpoonup> string) \<Rightarrow> DownloadSubTask \<Rightarrow> DownloadSubTask" where
  "header_size P headers S =
     (if truthy (headers ''content-disposition'')
      then S\<lparr>sub_size := Number P (headers ''content-length'')\<rparr>
      else S)"

definition resume :: "ref \<Rightarrow> Download \<Rightarrow> Download" where
  "resume k st = st\<lparr>suspended := (suspended st)(k := None)\<rparr>"

text \<open>
  \<^verbatim>\<open>initTask(task)\<close> after \<^verbatim>\<open>lsShare\<close> answered: the type, the name if the task has
  none, and fresh subtask objects.
\<close>

definition new_subTask ::
  "helpers \<Rightarrow> DownloadTask \<Rightarrow> string \<Rightarrow> ShareEntry \<Rightarrow> DownloadSubTask" where
  "new_subTask P T d e =
     \<lparr>sub_url = entry_url e, sub_pwd = entry_pwd e, sub_dir = d,
      sub_name = (if merge T \<noteq> Some True \<and> isSpecificFile P (entry_name e)
                  then restoreFileName P (entry_name e) else entry_name e),
      sub_resolve = Num 0, sub_status = ready, sub_size = sizeToByte P (entry_size e)\<rparr>"

definition initTask :: "helpers \<Rightarrow> ref \<Rightarrow> ShareListing \<Rightarrow> Download \<Rightarrow> Download" where
  "initTask P t L st =
     (case taskObj st t of
        None \<Rightarrow> st
      | Some T0 \<Rightarrow>
          (let T = T0\<lparr>urlType := Some (ls_type L),
                      name := (if name T0 = [] then ls_name L else name T0)\<rparr>;
               d = path_join (dir T) (name T) @ ''.downloading'';
               subs = map (new_subTask P T d) (ls_list L);
               refs = [fresh st ..< fresh st + length subs]
           in st\<lparr>taskObj := (taskObj st)(t \<mapsto> T\<lparr>tasks := refs\<rparr>),
                 subObj := subObj st ++ map_of (zip refs subs),
                 fresh := fresh st + length subs\<rparr>))"

text \<open>The \<^verbatim>\<open>catch\<close> branch of \<^verbatim>\<open>start\<close>.\<close>

definition start_catch :: "ref \<Rightarrow> ref \<Rightarrow> Download \<Rightarrow> Download" where
  "start_catch t s st =
     (let signalled =
            (case task_url st t of
               None \<Rightarrow> False
             | Some u \<Rightarrow> (case taskSignal st u of None \<Rightarrow> False | Some c \<Rightarrow> aborted st c))
      in set_status s (if signalled then pause else fail) st)"

text \<open>
  \<^verbatim>\<open>start\<close> after \<^verbatim>\<open>createStream\<close> resolved: the size from the headers, the new
  abort controller stored in \<^verbatim>\<open>taskSignal[task.url]\<close>, then the pipeline.
\<close>

definition start_pipeline ::
  "helpers \<Rightarrow> ref \<Rightarrow> ref \<Rightarrow> (string \<rightharpoonup> string) \<Rightarrow> Download \<Rightarrow> Download" where
  "start_pipeline P t s headers st =
     (let st1 = (case subObj st s of
                   None \<Rightarrow> st
                 | Some S \<Rightarrow> st\<lparr>subObj := (subObj st)(s \<mapsto> header_size P headers S)\<rparr>);
          c = fresh st1;
          st2 = st1\<lparr>aborted := (aborted st1)(c := False), fresh := Suc c\<rparr>;
          st3 = (case task_url st2 t of
                   None \<Rightarrow> st2
                 | Some u \<Rightarrow> st2\<lparr>taskSignal := (taskSignal st2)(u \<mapsto> c)\<rparr>)
      in suspend (AwaitPipeline t s c) st3)"

text \<open>
  The listener of \<^verbatim>\<open>finish\<close>: post-processing is scheduled after a delay, the task
  leaves the active list and joins the finished ones.
\<close>

definition on_finish :: "ref \<Rightarrow> Download \<Rightarrow> Download" where
  "on_finish t st =
     (let st1 = suspend (AwaitPostProcess t) st;
          st2 = (case task_url st1 t of None \<Rightarrow> st1 | Some u \<Rightarrow> remove u st1)
      in st2\<lparr>finishList := finishList st2 @ [t]\<rparr>)"

text \<open>The listener of \<^verbatim>\<open>finish-task\<close>.\<close>

definition on_finish_task :: "ref \<Rightarrow> ref \<Rightarrow> Download \<Rightarrow> Download" where
  "on_finish_task t s st =
     (let st1 = (case subObj st s of
                   None \<Rightarrow> st
                 | Some S \<Rightarrow> st\<lparr>taskSignal := (taskSignal st)(sub_url S := None)\<rparr>)
      in if list_all (\<lambda>r. status_of st1 r = Some finish) (task_subs st1 t)
         then on_finish t st1
         else (case task_url st1 t of None \<Rightarrow> st1 | Some u \<Rightarrow> start u False st1))"

section \<open>Events\<close>

text \<open>
  The store runs on one thread: between two \<^verbatim>\<open>await\<close>s nothing else happens. An
  event is a call of a public operation, a tick of the autorun, or the settling of
  what a suspended call waits for, with the answer of the outside world. When the
  listing arrives, \<^verbatim>\<open>initTask\<close> and the call of \<^verbatim>\<open>start\<close> that waits for it resume in
  one event. The messages shown to the user are not part of the store.
\<close>

datatype event =
    AddTask options "string \<Rightarrow> bool" bool
  | Start string bool
  | StartAll
  | Pause string
  | PauseAll
  | Remove string
  | RemoveAll
  | RemoveAllFinish
  | CheckTask
  | FsRemoveSettled ref "string option"
  | ListingSettled ref "string + ShareListing"
  | DownUrlSettled ref "string + string"
  | EnsureDirSettled ref "string option"
  | StreamSettled ref network
  | DownloadProgress ref number
  | PipelineSettled ref "string option"
  | PostProcessSettled ref

fun step :: "helpers \<Rightarrow> event \<Rightarrow> Download \<Rightarrow> Download" where
  "step P (AddTask opts existsSync confirmed) st = fst (addTask P opts existsSync confirmed st)"
| "step P (Start u reset) st = start u reset st"
| "step P StartAll st = startAll st"
| "step P (Pause u) st = fst (pause_task u st)"
| "step P PauseAll st = pauseAll st"
| "step P (Remove u) st = remove u st"
| "step P RemoveAll st = removeAll st"
| "step P RemoveAllFinish st = removeAllFinish st"
| "step P CheckTask st = (if list st = [] then st else checkTask st)"
| "step P (FsRemoveSettled k res) st =
     (case suspended st k of
        Some (AwaitFsRemove T) \<Rightarrow>
          (case res of None \<Rightarrow> push_task T (resume k st) | Some err \<Rightarrow> resume k st)
      | _ \<Rightarrow> st)"
| "step P (ListingSettled k res) st =
     (case suspended st k of
        Some (AwaitInit t) \<Rightarrow>
          (case res of
             Inl err \<Rightarrow> resume k st
           | Inr L \<Rightarrow> start_subTask t (initTask P t L (resume k st)))
      | _ \<Rightarrow> st)"
| "step P (DownUrlSettled k res) st =
     (case suspended st k of
        Some (AwaitDownUrl t s) \<Rightarrow>
          (case res of
             Inl err \<Rightarrow> start_catch t s (resume k st)
           | Inr u \<Rightarrow> suspend (AwaitEnsureDir t s u) (resume k st))
      | _ \<Rightarrow> st)"
| "step P (EnsureDirSettled k res) st =
     (case suspended st k of
        Some (AwaitEnsureDir t s u) \<Rightarrow>
          (case res of
             Some err \<Rightarrow> start_catch t s (resume k st)
           | None \<Rightarrow> suspend (AwaitStream t s u) (resume k st))
      | _ \<Rightarrow> st)"
| "step P (StreamSettled k net) st =
     (case suspended st k of
        Some (AwaitStream t s u) \<Rightarrow>
          (case createStream P net 0 [] u of
             None \<Rightarrow> st
           | Some (acts, Resolved headers) \<Rightarrow> start_pipeline P t s headers (resume k st)
           | Some (acts, _) \<Rightarrow> start_catch t s (resume k st))
      | _ \<Rightarrow> st)"
| "step P (DownloadProgress k transferred) st =
     (case suspended st k of
        Some (AwaitPipeline t s c) \<Rightarrow>
          (case subObj st s of
             None \<Rightarrow> st
           | Some S \<Rightarrow> st\<lparr>subObj := (subObj st)(s \<mapsto> S\<lparr>sub_resolve := transferred\<rparr>)\<rparr>)
      | _ \<Rightarrow> st)"
| "step P (PipelineSettled k res) st =
     (case suspended st k of
        Some (AwaitPipeline t s c) \<Rightarrow>
          (case res of
             None \<Rightarrow> on_finish_task t s (set_status s finish (resume k st))
           | Some err \<Rightarrow> start_catch t s (resume k st))
      | _ \<Rightarrow> st)"
| "step P (PostProcessSettled k) st =
     (case suspended st k of
        Some (AwaitPostProcess t) \<Rightarrow> resume k st
      | _ \<Rightarrow> st)"

text \<open>A run of the store: the events in the order they happen.\<close>

definition run :: "helpers \<Rightarrow> event list \<Rightarrow> Download \<Rightarrow> Download" where
  "run P es st = fold (step P) es st"

section \<open>Post-processing\<close>

text \<open>
  The disk, as far as \<^verbatim>\<open>onTaskFinish\<close> needs it: a path holds a file with its content
  or a directory with the names of its entries, in the order the disk keeps them.
  The listing of a parent directory is not maintained by the operations below.
\<close>

datatype node = File string | Dir "string list"

type_synonym filesystem = "string \<rightharpoonup> node"

datatype fs_error = NoSuchEntry string | NoSubTask

definition below :: "string \<Rightarrow> string \<Rightarrow> bool" where
  "below d p = (p = d \<or> prefix (d @ ''/'') p)"

text \<open>\<^verbatim>\<open>fs.remove(p)\<close> of fs-extra: the entry and all below it; a missing path is no error.\<close>

definition fs_remove :: "string \<Rightarrow> filesystem \<Rightarrow> filesystem" where
  "fs_remove p fs = (\<lambda>q. if below p q then None else fs q)"

text \<open>\<^verbatim>\<open>fs.rename(a, b)\<close>: the entry and all below it move.\<close>

definition fs_rename :: "string \<Rightarrow> string \<Rightarrow> filesystem \<Rightarrow> fs_error + filesystem" where
  "fs_rename a b fs =
     (if fs a = None then Inl (NoSuchEntry a)
      else Inr (\<lambda>q. if below b q then fs (a @ drop (length b) q)
                    else if below a q then None else fs q))"

text \<open>
  Modelled from the spec: \<^verbatim>\<open>fs.readdir\<close> is not part of \<^verbatim>\<open>src/\<close>; the source relies
  on it to return the names sorted (its comment says the listing is sorted
  automatically) and the spec asks for a listing sorted by name.
\<close>

definition fs_readdir :: "string \<Rightarrow> filesystem \<Rightarrow> fs_error + string list" where
  "fs_readdir d fs = (case fs d of Some (Dir names) \<Rightarrow> Inr (sort names) | _ \<Rightarrow> Inl (NoSuchEntry d))"

definition read_file :: "filesystem \<Rightarrow> string \<Rightarrow> string option" where
  "read_file fs p = (case fs p of Some (File c) \<Rightarrow> Some c | _ \<Rightarrow> None)"

text \<open>
  Modelled from the spec: \<^verbatim>\<open>merge(files, target)\<close> of \<^verbatim>\<open>common/merge\<close> is not part of
  \<^verbatim>\<open>src/\<close>; the spec says it concatenates the files in the order given into a
  single output file at the target.
\<close>

definition merge_files :: "string list \<Rightarrow> string \<Rightarrow> filesystem \<Rightarrow> fs_error + filesystem" where
  "merge_files files target fs =
     (case List.find (\<lambda>p. read_file fs p = None) files of
        Some p \<Rightarrow> Inl (NoSuchEntry p)
      | None \<Rightarrow> Inr (fs(target \<mapsto> File (concat (map (\<lambda>p. case read_file fs p of Some c \<Rightarrow> c | None \<Rightarrow> []) files)))))"

text \<open>\<^verbatim>\<open>s.replace(/\.downloading$/, '')\<close>\<close>

definition strip_downloading :: "string \<Rightarrow> string" where
  "strip_downloading s =
     (if suffix ''.downloading'' s then take (length s - length ''.downloading'') s else s)"

text \<open>
  \<^verbatim>\<open>onTaskFinish(task)\<close>, on the disk. A rejected promise is \<open>Inl\<close>; the waiting time
  between the merge and the removal has no effect on the disk.
\<close>

definition onTaskFinish :: "Download \<Rightarrow> ref \<Rightarrow> filesystem \<Rightarrow> fs_error + filesystem" where
  "onTaskFinish st t fs =
     (case taskObj st t of
        None \<Rightarrow> Inl NoSubTask
      | Some T \<Rightarrow>
          (let resolveTarget = path_join (dir T) (name T) in
           case (case tasks T of [] \<Rightarrow> None | s # _ \<Rightarrow> subObj st s) of
             None \<Rightarrow> Inl NoSubTask
           | Some subTask \<Rightarrow>
               (case urlType T of
                  Some URLfile \<Rightarrow>
                    (case fs_rename (path_join (sub_dir subTask) (sub_name subTask))
                            resolveTarget fs of
                       Inl e \<Rightarrow> Inl e
                     | Inr fs1 \<Rightarrow> Inr (fs_remove (sub_dir subTask) fs1))
                | Some URLfolder \<Rightarrow>
                    if merge T = Some True
                    then (case fs_readdir (sub_dir subTask) fs of
                            Inl e \<Rightarrow> Inl e
                          | Inr names \<Rightarrow>
                              (case merge_files (map (path_join (sub_dir subTask)) names)
                                      resolveTarget fs of
                                 Inl e \<Rightarrow> Inl e
                               | Inr fs1 \<Rightarrow> Inr (fs_remove (sub_dir subTask) fs1)))
                    else fs_rename (sub_dir subTask) (strip_downloading (sub_dir subTask)) fs
                | None \<Rightarrow> Inr fs)))"

section \<open>Status transitions\<close>

text \<open>The six transitions of the subtask status machine.\<close>

definition claimed_edge :: "TaskStatus \<Rightarrow> TaskStatus \<Rightarrow> bool" where
  "claimed_edge a b =
     ((a = ready \<and> b = pending) \<or> (a = pending \<and> b = finish) \<or>
      (a = pending \<and> b = pause) \<or> (a = pending \<and> b = fail) \<or>
      (a = pause \<and> b = ready) \<or> (a = fail \<and> b = ready))"

text \<open>The same, with the transition from ready to pause that \<^verbatim>\<open>pause\<close> makes.\<close>

definition code_edge :: "TaskStatus \<Rightarrow> TaskStatus \<Rightarrow> bool" where
  "code_edge a b = (claimed_edge a b \<or> (a = ready \<and> b = pause))"

text \<open>The assignments to a status that happened between two states of a run.\<close>

definition new_transitions :: "Download \<Rightarrow> Download \<Rightarrow> (ref \<times> TaskStatus \<times> TaskStatus) list" where
  "new_transitions st st' = drop (length (transitions st)) (transitions st')"

text \<open>The subtask a suspended call works on, and the call an event resumes.\<close>

fun awaited_subTask :: "cont \<Rightarrow> ref option" where
  "awaited_subTask (AwaitDownUrl t s) = Some s"
| "awaited_subTask (AwaitEnsureDir t s u) = Some s"
| "awaited_subTask (AwaitStream t s u) = Some s"
| "awaited_subTask (AwaitPipeline t s c) = Some s"
| "awaited_subTask (AwaitInit t) = None"
| "awaited_subTask (AwaitFsRemove T) = None"
| "awaited_subTask (AwaitPostProcess t) = None"

fun resumed_call :: "event \<Rightarrow> ref option" where
  "resumed_call (FsRemoveSettled k res) = Some k"
| "resumed_call (ListingSettled k res) = Some k"
| "resumed_call (DownUrlSettled k res) = Some k"
| "resumed_call (EnsureDirSettled k res) = Some k"
| "resumed_call (StreamSettled k net) = Some k"
| "resumed_call (DownloadProgress k n) = Some k"
| "resumed_call (PipelineSettled k res) = Some k"
| "resumed_call (PostProcessSettled k) = Some k"
| "resumed_call (AddTask opts existsSync confirmed) = None"
| "resumed_call (Start u reset) = None"
| "resumed_call StartAll = None"
| "resumed_call (Pause u) = None"
| "resumed_call PauseAll = None"
| "resumed_call (Remove u) = None"
| "resumed_call RemoveAll = None"
| "resumed_call RemoveAllFinish = None"
| "resumed_call CheckTask = None"

text \<open>
  The event is no settling of a transfer, or the subtask of the transfer it settles
  is still pending.
\<close>

definition still_pending :: "Download \<Rightarrow> event \<Rightarrow> bool" where
  "still_pending st e =
     (case resumed_call e of
        None \<Rightarrow> True
      | Some k \<Rightarrow>
          (case suspended st k of
             None \<Rightarrow> True
           | Some c \<Rightarrow>
               (case awaited_subTask c of
                  None \<Rightarrow> True
                | Some s \<Rightarrow> status_of st s = Some pending)))"

text \<open>
  From \<open>st\<close> to \<open>st'\<close> the history of assignments was only extended, and every
  assignment added goes along one of these transitions.
\<close>

definition grows :: "Download \<Rightarrow> Download \<Rightarrow> bool" where
  "grows st st' =
     (\<exists>xs. transitions st' = transitions st @ xs \<and> list_all (\<lambda>(r, a, b). code_edge a b) xs)"

text \<open>
  Since \<open>st\<close> the subtask \<open>r\<close> was taken from pause to ready, and it is now ready or
  already pending again.
\<close>

definition resumed :: "ref \<Rightarrow> Download \<Rightarrow> Download \<Rightarrow> bool" where
  "resumed r st s =
     ((r, pause, ready) \<in> set (new_transitions st s) \<and>
      (status_of s r = Some ready \<or> status_of s r = Some pending))"

section \<open>Concrete runs\<close>

text \<open>
  Helpers for the runs below: no file name is special, sizes and lengths are
  decimal numerals, no page holds a validation request.
\<close>

definition decimal :: "string \<Rightarrow> number" where
  "decimal s = (if list_all (\<lambda>c. CHR ''0'' \<le> c \<and> c \<le> CHR ''9'') s
                then Num (foldl (\<lambda>a c. 10 * a + (of_char c - 48)) 0 s) else NaN)"

definition plain_helpers :: helpers where
  "plain_helpers = \<lparr>isSpecificFile = (\<lambda>_. False), restoreFileName = (\<lambda>n. n),
     sizeToByte = decimal, NumberOfString = decimal,
     parseValidateAjax = (\<lambda>_. None), newURL = (\<lambda>rel base. rel)\<rparr>"

definition request :: "string \<Rightarrow> string \<Rightarrow> bool option \<Rightarrow> options" where
  "request n u m = \<lparr>opt_name = n, opt_url = u, opt_pwd = None, opt_merge = m\<rparr>"

definition no_disk :: "string \<Rightarrow> bool" where
  "no_disk p = False"

definition share_of :: "string \<Rightarrow> URLType \<Rightarrow> (string \<times> string) list \<Rightarrow> ShareListing" where
  "share_of n ty es =
     \<lparr>ls_name = n, ls_type = ty,
      ls_list = map (\<lambda>(u, f). \<lparr>entry_url = u, entry_name = f, entry_size = ''1'',
                               entry_pwd = None\<rparr>) es\<rparr>"

text \<open>A remote side that answers every request with the given headers and no body.\<close>

definition binary_net :: "(string \<rightharpoonup> string) \<Rightarrow> network" where
  "binary_net h = \<lparr>open_stream = (\<lambda>n u. Response h []), share_json = (\<lambda>n q. Inl ''unused'')\<rparr>"

definition file_headers :: "string \<rightharpoonup> string" where
  "file_headers = [''content-type'' \<mapsto> ''application/octet-stream'',
                   ''content-disposition'' \<mapsto> ''attachment'', ''content-length'' \<mapsto> ''3'']"

text \<open>
  A share of one file whose only entry has the url of the share: the task is added
  and started, the listing arrives, the address is resolved, the directory made.
\<close>

definition file_resolved :: Download where
  "file_resolved = run plain_helpers
     [AddTask (request ''a'' ''a'' None) no_disk False, Start ''a'' False,
      ListingSettled 1 (Inr (share_of ''a'' URLfile [(''a'', ''a'')])),
      DownUrlSettled 3 (Inr ''d''), EnsureDirSettled 4 None] (new_store ''dl'')"

text \<open>Then the stream opens and the pipeline runs (call 7, controller 6, subtask 2).\<close>

definition file_downloading :: Download where
  "file_downloading = step plain_helpers (StreamSettled 5 (binary_net file_headers)) file_resolved"

text \<open>
  A shared folder \<open>T\<close> of three parts, to be merged; the pipeline of the first part
  runs (call 9, controller 8, subtasks 2, 3 and 4).
\<close>

definition folder_downloading :: Download where
  "folder_downloading = run plain_helpers
     [AddTask (request ''big'' ''T'' (Some True)) no_disk False, Start ''T'' False,
      ListingSettled 1 (Inr (share_of ''big'' URLfolder
                               [(''u1'', ''p1''), (''u2'', ''p2''), (''u3'', ''p3'')])),
      DownUrlSettled 5 (Inr ''d1''), EnsureDirSettled 6 None,
      StreamSettled 7 (binary_net file_headers)] (new_store ''dl'')"

text \<open>The folder \<open>T\<close> after \<^verbatim>\<open>pause\<close>: its three subtasks are in pause.\<close>

definition folder_paused :: Download where
  "folder_paused = step plain_helpers (Pause ''T'') folder_downloading"

text \<open>
  Four shares are added and all started before any listing has arrived; then the
  four listings arrive.
\<close>

definition four_listings :: "event list" where
  "four_listings =
     [AddTask (request ''a'' ''a'' None) no_disk False,
      AddTask (request ''b'' ''b'' None) no_disk False,
      AddTask (request ''c'' ''c'' None) no_disk False,
      AddTask (request ''d'' ''d'' None) no_disk False,
      StartAll,
      ListingSettled 4 (Inr (share_of ''a'' URLfile [(''a'', ''a'')])),
      ListingSettled 5 (Inr (share_of ''b'' URLfile [(''b'', ''b'')])),
      ListingSettled 6 (Inr (share_of ''c'' URLfile [(''c'', ''c'')])),
      ListingSettled 7 (Inr (share_of ''d'' URLfile [(''d'', ''d'')]))]"

text \<open>The address of the only subtask of a file share cannot be resolved: it fails.\<close>

definition file_failed :: Download where
  "file_failed = run plain_helpers
     [AddTask (request ''a'' ''a'' None) no_disk False, Start ''a'' False,
      ListingSettled 1 (Inr (share_of ''a'' URLfile [(''a'', ''a'')])),
      DownUrlSettled 3 (Inl ''timeout'')] (new_store ''dl'')"

text \<open>A challenge page with a validation request, and a page without one.\<close>

definition challenge_helpers :: helpers where
  "challenge_helpers = plain_helpers\<lparr>parseValidateAjax :=
     (\<lambda>html. if html = ''form''
              then Some \<lparr>ajax_url = ''/ajax.php'', ajax_type = ''post'',
                         ajax_data = [(''sign'', ''s1'')]\<rparr>
              else None)\<rparr>"

definition challenge_net :: network where
  "challenge_net =
     \<lparr>open_stream =
        (\<lambda>n u. if u = ''d1'' then Response [''content-type'' \<mapsto> ''text/html''] ''form''
                else if u = ''d2'' then Response file_headers ''abc''
                else if u = ''d3'' then Response [''content-type'' \<mapsto> ''text/html''] ''garbage''
                else StreamError ''ENOTFOUND''),
      share_json = (\<lambda>n q. Inr ''d2'')\<rparr>"

text \<open>The temporary directory of the folder \<open>T\<close> with its three parts.\<close>

definition parts_disk :: filesystem where
  "parts_disk = [''dl/big.downloading'' \<mapsto> Dir [''p3'', ''p1'', ''p2''],
                 ''dl/big.downloading/p1'' \<mapsto> File ''A'',
                 ''dl/big.downloading/p2'' \<mapsto> File ''B'',
                 ''dl/big.downloading/p3'' \<mapsto> File ''C'']"

section \<open>Properties\<close>

subsection \<open>Pausing a running transfer\<close>

text \<open>
  C1. The claim: pausing a pending subtask leaves it in pause, never in fail, and
  once the pause is over its cancellation token is gone from the signal map. The
  store does otherwise. In the file share the token is stored under the url that
  \<^verbatim>\<open>abortTask\<close> looks up: the pause triggers the token and deletes it, its promise is
  never resolved, and when the pipeline then rejects the \<^verbatim>\<open>catch\<close> branch finds no
  token any more and sets the status to fail. In the folder the token is stored
  under the url of the task, where \<^verbatim>\<open>abortTask\<close> does not look: the promise of the
  pause is resolved, the token is still in the map and was never triggered, the
  transfer goes on, and an error of the connection then takes the paused subtask
  to fail.
\<close>

theorem pause_of_pending_ends_in_fail:
  "status_of file_downloading 2 = Some pending \<and>
   taskSignal file_downloading ''a'' = Some 6 \<and>
   status_of (step plain_helpers (Pause ''a'') file_downloading) 2 = Some pause \<and>
   snd (pause_task ''a'' file_downloading) = False \<and>
   aborted (step plain_helpers (Pause ''a'') file_downloading) 6 = True \<and>
   taskSignal (step plain_helpers (Pause ''a'') file_downloading) ''a'' = None \<and>
   status_of (run plain_helpers [Pause ''a'', PipelineSettled 7 (Some ''AbortError'')]
                file_downloading) 2 = Some fail \<and>
   status_of folder_downloading 2 = Some pending \<and>
   snd (pause_task ''T'' folder_downloading) = True \<and>
   taskSignal (step plain_helpers (Pause ''T'') folder_downloading) ''T'' = Some 8 \<and>
   aborted (step plain_helpers (Pause ''T'') folder_downloading) 8 = False \<and>
   status_of (run plain_helpers [Pause ''T'', PipelineSettled 9 (Some ''ECONNRESET'')]
                folder_downloading) 2 = Some fail"
  by code_simp

subsection \<open>The cap on pending subtasks\<close>

text \<open>
  C2. The claim: never more than three subtasks are pending, and a start attempt at
  capacity changes nothing. \<^verbatim>\<open>start\<close> checks \<^verbatim>\<open>canStart\<close> before it waits for the
  listing of a task without subtasks and does not check again afterwards: four
  tasks started before any listing arrived end with four pending subtasks.
\<close>

theorem four_pending_after_listings:
  "queue (run plain_helpers four_listings (new_store ''dl'')) = 4"
  by code_simp

text \<open>The second half of C2 holds: at capacity \<^verbatim>\<open>start\<close> returns at once.\<close>

lemma start_at_capacity: "3 \<le> queue st \<Longrightarrow> start u reset st = st"
  by (simp add: start_def canStart_def split: option.splits)

subsection \<open>The key of the cancellation token\<close>

text \<open>
  Where \<^verbatim>\<open>start\<close> stores the abort controller it creates: under the url of the task,
  and nowhere else.
\<close>

lemma start_pipeline_stores_token:
  assumes "taskObj st t = Some T"
  shows "taskSignal (start_pipeline P t s h st) (url T) = Some (fresh st) \<and>
         (\<forall>u. u \<noteq> url T \<longrightarrow> taskSignal (start_pipeline P t s h st) u = taskSignal st u)"
  using assms
  by (simp add: start_pipeline_def suspend_def task_url_def Let_def split: option.splits)

text \<open>
  C4. The claim: the token of a transfer is stored under the url of the subtask, so
  that pause and remove find and trigger it. The store writes it to
  \<^verbatim>\<open>taskSignal[task.url]\<close>, the url of the task, while \<^verbatim>\<open>abortTask\<close> and the listener
  of \<^verbatim>\<open>finish-task\<close> use the url of the subtask: in the folder \<open>T\<close> the token of the
  first part is under \<open>T\<close>, nothing is under \<open>u1\<close>, and neither pause nor remove
  triggers it.
\<close>

theorem token_stored_under_task_url:
  "map_option sub_url (subObj folder_downloading 2) = Some ''u1'' \<and>
   suspended folder_downloading 9 = Some (AwaitPipeline 0 2 8) \<and>
   taskSignal folder_downloading ''u1'' = None \<and>
   taskSignal folder_downloading ''T'' = Some 8 \<and>
   aborted (step plain_helpers (Pause ''T'') folder_downloading) 8 = False \<and>
   aborted (step plain_helpers (Remove ''T'') folder_downloading) 8 = False"
  by code_simp

subsection \<open>Admission of a duplicate\<close>

text \<open>
  C6. When the url of the request is the url of a task of the active list,
  \<^verbatim>\<open>addTask\<close> is rejected with the duplicate error and the store, with the active
  list and every task in it, is as before, whatever the disk and the user say.
\<close>

theorem addTask_duplicate_rejects:
  assumes "list_ex (\<lambda>t. task_url st t = Some (opt_url opts)) (list st)"
  shows "addTask P opts existsSync confirmed st = (st, Some DuplicateTask) \<and>
         step P (AddTask opts existsSync confirmed) st = st"
proof -
  from assms have "find_task st (opt_url opts) \<noteq> None"
    by (auto simp add: find_task_def find_None_iff list_ex_iff)
  then have "addTask P opts existsSync confirmed st = (st, Some DuplicateTask)"
    by (simp add: addTask_def pushAndCheckList_def)
  then show ?thesis by simp
qed

theorem addTask_duplicate_rejects_witness:
  "list_ex (\<lambda>t. task_url file_resolved t = Some (opt_url (request ''again'' ''a'' None)))
     (list file_resolved) \<and>
   addTask plain_helpers (request ''again'' ''a'' None) no_disk True file_resolved =
     (file_resolved, Some DuplicateTask) \<and>
   step plain_helpers (AddTask (request ''again'' ''a'' None) no_disk True) file_resolved =
     file_resolved"
proof -
  have present:
    "list_ex (\<lambda>t. task_url file_resolved t = Some (opt_url (request ''again'' ''a'' None)))
       (list file_resolved)"
    by code_simp
  from present addTask_duplicate_rejects [OF present, of plain_helpers no_disk True]
  show ?thesis by simp
qed

subsection \<open>The challenge page\<close>

lemma createStream_binary:
  assumes "open_stream net n u = Response h body"
      and "h ''content-type'' \<noteq> Some ''text/html''"
  shows "createStream P net n acts u = Some (acts @ [OpenStream u], Resolved h)"
  using assms by (subst createStream.simps) simp

lemma createStream_unparsed:
  assumes "open_stream net n u = Response h html"
      and "h ''content-type'' = Some ''text/html''"
      and "parseValidateAjax P html = None"
  shows "createStream P net n acts u =
         Some (acts @ [OpenStream u, StreamToText], ChallengeParseError)"
  using assms by (subst createStream.simps) simp

lemma createStream_hop:
  assumes "open_stream net n u = Response h html"
      and "h ''content-type'' = Some ''text/html''"
      and "parseValidateAjax P html = Some a"
      and "share_json net n \<lparr>req_url = newURL P (ajax_url a) u, req_method = ajax_type a,
                              req_referer = u, req_form = ajax_data a\<rparr> = Inr u2"
  shows "createStream P net n acts u =
         createStream P net (Suc n)
           (acts @ [OpenStream u, StreamToText, Delay 2000,
                    Submit \<lparr>req_url = newURL P (ajax_url a) u, req_method = ajax_type a,
                            req_referer = u, req_form = ajax_data a\<rparr>]) u2"
  using assms by (subst createStream.simps) (simp add: Let_def)

text \<open>
  C7. The first response to \<open>u\<close> is an HTML page. If the page holds a validation
  request, its answer is \<open>u2\<close> and the response to \<open>u2\<close> is not HTML, then
  \<^verbatim>\<open>createStream\<close> reads the page, waits 2000 ms, submits the request with the
  referer \<open>u\<close>, opens \<open>u2\<close> once and resolves with that stream, and does nothing
  else. If the page holds no validation request, the promise is rejected with the
  parse error after the page was read.
\<close>

theorem createStream_challenge:
  assumes "open_stream net n u = Response h html"
      and "h ''content-type'' = Some ''text/html''"
  shows "(\<forall>a u2 h2 body.
            parseValidateAjax P html = Some a \<and>
            share_json net n \<lparr>req_url = newURL P (ajax_url a) u, req_method = ajax_type a,
                               req_referer = u, req_form = ajax_data a\<rparr> = Inr u2 \<and>
            open_stream net (Suc n) u2 = Response h2 body \<and>
            h2 ''content-type'' \<noteq> Some ''text/html''
            \<longrightarrow> createStream P net n acts u =
                  Some (acts @ [OpenStream u, StreamToText, Delay 2000,
                                Submit \<lparr>req_url = newURL P (ajax_url a) u,
                                        req_method = ajax_type a, req_referer = u,
                                        req_form = ajax_data a\<rparr>,
                                OpenStream u2],
                        Resolved h2)) \<and>
         (parseValidateAjax P html = None
            \<longrightarrow> createStream P net n acts u =
                  Some (acts @ [OpenStream u, StreamToText], ChallengeParseError))"
proof (intro conjI allI impI)
  fix a u2 h2 body
  assume H: "parseValidateAjax P html = Some a \<and>
            share_json net n \<lparr>req_url = newURL P (ajax_url a) u, req_method = ajax_type a,
                               req_referer = u, req_form = ajax_data a\<rparr> = Inr u2 \<and>
            open_stream net (Suc n) u2 = Response h2 body \<and>
            h2 ''content-type'' \<noteq> Some ''text/html''"
  then have "createStream P net n acts u =
         createStream P net (Suc n)
           (acts @ [OpenStream u, StreamToText, Delay 2000,
                    Submit \<lparr>req_url = newURL P (ajax_url a) u, req_method = ajax_type a,
                            req_referer = u, req_form = ajax_data a\<rparr>]) u2"
    using assms createStream_hop by blast
  also have "\<dots> = Some ((acts @ [OpenStream u, StreamToText, Delay 2000,
                    Submit \<lparr>req_url = newURL P (ajax_url a) u, req_method = ajax_type a,
                            req_referer = u, req_form = ajax_data a\<rparr>]) @ [OpenStream u2],
                   Resolved h2)"
    using H createStream_binary by blast
  finally show "createStream P net n acts u =
                  Some (acts @ [OpenStream u, StreamToText, Delay 2000,
                                Submit \<lparr>req_url = newURL P (ajax_url a) u,
                                        req_method = ajax_type a, req_referer = u,
                                        req_form = ajax_data a\<rparr>,
                                OpenStream u2],
                        Resolved h2)" by simp
next
  assume "parseValidateAjax P html = None"
  with assms show "createStream P net n acts u =
                  Some (acts @ [OpenStream u, StreamToText], ChallengeParseError)"
    by (rule createStream_unparsed)
qed

theorem createStream_challenge_witness:
  "open_stream challenge_net 0 ''d1'' = Response [''content-type'' \<mapsto> ''text/html''] ''form'' \<and>
   createStream challenge_helpers challenge_net 0 [] ''d1'' =
     Some ([OpenStream ''d1'', StreamToText, Delay 2000,
            Submit \<lparr>req_url = ''/ajax.php'', req_method = ''post'', req_referer = ''d1'',
                    req_form = [(''sign'', ''s1'')]\<rparr>,
            OpenStream ''d2''],
           Resolved file_headers) \<and>
   open_stream challenge_net 0 ''d3'' =
     Response [''content-type'' \<mapsto> ''text/html''] ''garbage'' \<and>
   createStream challenge_helpers challenge_net 0 [] ''d3'' =
     Some ([OpenStream ''d3'', StreamToText], ChallengeParseError)"
proof -
  have o1: "open_stream challenge_net 0 ''d1'' =
            Response [''content-type'' \<mapsto> ''text/html''] ''form''"
    by (simp add: challenge_net_def)
  have o3: "open_stream challenge_net 0 ''d3'' =
            Response [''content-type'' \<mapsto> ''text/html''] ''garbage''"
    by (simp add: challenge_net_def)
  have ct: "[''content-type'' \<mapsto> ''text/html''] ''content-type'' = Some ''text/html''"
    by simp
  have p1: "parseValidateAjax challenge_helpers ''form'' =
            Some \<lparr>ajax_url = ''/ajax.php'', ajax_type = ''post'',
                  ajax_data = [(''sign'', ''s1'')]\<rparr>"
    by (simp add: challenge_helpers_def plain_helpers_def)
  have p3: "parseValidateAjax challenge_helpers ''garbage'' = None"
    by (simp add: challenge_helpers_def plain_helpers_def)
  have nu: "newURL challenge_helpers ''/ajax.php'' ''d1'' = ''/ajax.php''"
    by (simp add: challenge_helpers_def plain_helpers_def)
  have sj: "share_json challenge_net 0 \<lparr>req_url = ''/ajax.php'', req_method = ''post'',
              req_referer = ''d1'', req_form = [(''sign'', ''s1'')]\<rparr> = Inr ''d2''"
    by (simp add: challenge_net_def)
  have o2: "open_stream challenge_net (Suc 0) ''d2'' = Response file_headers ''abc''"
    by (simp add: challenge_net_def)
  have bin: "file_headers ''content-type'' \<noteq> Some ''text/html''"
    by (simp add: file_headers_def)
  have c1: "createStream challenge_helpers challenge_net 0 [] ''d1'' =
     Some ([OpenStream ''d1'', StreamToText, Delay 2000,
            Submit \<lparr>req_url = ''/ajax.php'', req_method = ''post'', req_referer = ''d1'',
                    req_form = [(''sign'', ''s1'')]\<rparr>,
            OpenStream ''d2''],
           Resolved file_headers)"
    using createStream_challenge [OF o1 ct, of challenge_helpers "[]"] p1 nu sj o2 bin
    by simp
  have c3: "createStream challenge_helpers challenge_net 0 [] ''d3'' =
     Some ([OpenStream ''d3'', StreamToText], ChallengeParseError)"
    using createStream_challenge [OF o3 ct, of challenge_helpers "[]"] p3 by simp
  from o1 o3 c1 c3 show ?thesis by simp
qed

subsection \<open>The size from the response headers\<close>

text \<open>
  C8, as the claim states it: without a content-length the size is left unchanged.
  The store only looks at the content-disposition: a response that carries a
  content-disposition and no content-length overwrites the size 1 of the listing
  with \<open>NaN\<close>.
\<close>

theorem size_without_content_length_counterexample:
  "[''content-disposition'' \<mapsto> ''attachment''] ''content-length'' = None \<and>
   suspended file_resolved 5 = Some (AwaitStream 0 2 ''d'') \<and>
   map_option sub_size (subObj file_resolved 2) = Some (Num 1) \<and>
   map_option sub_size
     (subObj (step plain_helpers
                (StreamSettled 5 (binary_net [''content-disposition'' \<mapsto> ''attachment'']))
                file_resolved) 2) = Some NaN"
  by code_simp

text \<open>
  C8, amended. When \<^verbatim>\<open>createStream\<close> resolves for the subtask of a suspended call,
  the size of that subtask becomes the number read from the content-length if the
  headers carry a non-empty content-disposition and a content-length, and stays as
  it was if they carry no content-disposition or an empty one.
\<close>

theorem size_from_headers:
  assumes "suspended st k = Some (AwaitStream t s u)"
      and "createStream P net 0 [] u = Some (acts, Resolved h)"
      and "subObj st s = Some S"
  shows "(\<forall>v. truthy (h ''content-disposition'') \<and> h ''content-length'' = Some v \<longrightarrow>
            map_option sub_size (subObj (step P (StreamSettled k net) st) s) =
            Some (NumberOfString P v)) \<and>
         (\<not> truthy (h ''content-disposition'') \<longrightarrow>
            map_option sub_size (subObj (step P (StreamSettled k net) st) s) =
            Some (sub_size S))"
proof -
  have "subObj (step P (StreamSettled k net) st) s = Some (header_size P h S)"
    using assms
    by (simp add: start_pipeline_def suspend_def resume_def Let_def task_url_def
             split: option.splits)
  then show ?thesis by (simp add: header_size_def Number_def)
qed

theorem size_from_headers_witness:
  "suspended file_resolved 5 = Some (AwaitStream 0 2 ''d'') \<and>
   map_option sub_size (subObj file_resolved 2) = Some (Num 1) \<and>
   map_option sub_size
     (subObj (step plain_helpers (StreamSettled 5 (binary_net file_headers)) file_resolved) 2) =
     Some (Num 3) \<and>
   map_option sub_size
     (subObj (step plain_helpers (StreamSettled 5 (binary_net [''content-length'' \<mapsto> ''3'']))
                file_resolved) 2) = Some (Num 1)"
proof -
  obtain S where S: "subObj file_resolved 2 = Some S" and size: "sub_size S = Num 1"
  proof -
    have "map_option sub_size (subObj file_resolved 2) = Some (Num 1)" by code_simp
    then show ?thesis using that by auto
  qed
  have k: "suspended file_resolved 5 = Some (AwaitStream 0 2 ''d'')" by code_simp
  have r1: "createStream plain_helpers (binary_net file_headers) 0 [] ''d'' =
            Some ([] @ [OpenStream ''d''], Resolved file_headers)"
    by (rule createStream_binary [where body = "[]"])
       (simp_all add: binary_net_def file_headers_def)
  have r2: "createStream plain_helpers (binary_net [''content-length'' \<mapsto> ''3'']) 0 [] ''d'' =
            Some ([] @ [OpenStream ''d''], Resolved [''content-length'' \<mapsto> ''3''])"
    by (rule createStream_binary [where body = "[]"]) (simp_all add: binary_net_def)
  have d3: "NumberOfString plain_helpers ''3'' = Num 3" by code_simp
  have a: "map_option sub_size
     (subObj (step plain_helpers (StreamSettled 5 (binary_net file_headers)) file_resolved) 2) =
     Some (Num 3)"
    using size_from_headers [OF k r1 S] d3 by (simp add: truthy_def file_headers_def)
  have b: "map_option sub_size
     (subObj (step plain_helpers (StreamSettled 5 (binary_net [''content-length'' \<mapsto> ''3'']))
                file_resolved) 2) = Some (Num 1)"
    using size_from_headers [OF k r2 S] size by (simp add: truthy_def)
  from k S size a b show ?thesis by simp
qed

subsection \<open>The guards of start\<close>

text \<open>
  C10. \<^verbatim>\<open>start(url)\<close> without \<^verbatim>\<open>reset\<close> returns the store as it was (tasks, subtasks,
  signal map, and no call left suspended) when no task of the active list has the
  url, and when the task found has subtasks of which none is ready.
\<close>

theorem start_guard_returns:
  assumes "find_task st u = None \<or>
           (\<exists>t. find_task st u = Some t \<and> task_subs st t \<noteq> [] \<and>
                \<not> list_ex (\<lambda>r. status_of st r = Some ready) (task_subs st t))"
  shows "start u False st = st"
  using assms
proof
  assume "find_task st u = None"
  then show ?thesis by (simp add: start_def)
next
  assume "\<exists>t. find_task st u = Some t \<and> task_subs st t \<noteq> [] \<and>
                \<not> list_ex (\<lambda>r. status_of st r = Some ready) (task_subs st t)"
  then obtain t where t: "find_task st u = Some t" "task_subs st t \<noteq> []"
    and nr: "\<not> list_ex (\<lambda>r. status_of st r = Some ready) (task_subs st t)" by blast
  from nr have "List.find (\<lambda>r. status_of st r = Some ready) (task_subs st t) = None"
    by (simp add: find_None_iff list_ex_iff)
  with t show ?thesis by (simp add: start_def start_subTask_def)
qed

theorem start_guard_returns_witness:
  "find_task (new_store ''dl'') ''a'' = None \<and>
   start ''a'' False (new_store ''dl'') = new_store ''dl'' \<and>
   find_task file_resolved ''a'' = Some 0 \<and> task_subs file_resolved 0 = [2] \<and>
   status_of file_resolved 2 = Some pending \<and>
   start ''a'' False file_resolved = file_resolved"
proof -
  have a: "find_task (new_store ''dl'') ''a'' = None" by code_simp
  have b: "find_task file_resolved ''a'' = Some 0" by code_simp
  have c: "task_subs file_resolved 0 = [2]" by code_simp
  have d: "status_of file_resolved 2 = Some pending" by code_simp
  have e: "start ''a'' False (new_store ''dl'') = new_store ''dl''"
    using start_guard_returns [of "new_store ''dl''" "''a''"] a by simp
  have f: "start ''a'' False file_resolved = file_resolved"
    using start_guard_returns [of file_resolved "''a''"] b c d by simp
  from a b c d e f show ?thesis by simp
qed

subsection \<open>Merging the parts of a folder\<close>

lemma contents_of_map:
  assumes "map f xs = map Some cs"
  shows "map (\<lambda>x. case f x of Some c \<Rightarrow> c | None \<Rightarrow> d) xs = cs"
  using assms by (induction xs arbitrary: cs) auto

lemma find_unreadable_None:
  assumes "map f xs = map Some cs"
  shows "List.find (\<lambda>x. f x = None) xs = None"
  using assms by (induction xs arbitrary: cs) auto

lemma below_entry: "below d (path_join d n)"
  by (simp add: below_def path_join_def)

text \<open>
  C9. For a folder task with merge set, whose first subtask names the temporary
  directory: post-processing lists the directory sorted by name, writes the
  contents of its files, concatenated in that order, to the file named by the
  directory and the name of the task, and removes the temporary directory with its
  parts. The listing and the merge are modelled from the spec.
\<close>

theorem merge_post_processing:
  assumes "taskObj st t = Some T" and "urlType T = Some URLfolder" and "merge T = Some True"
      and "tasks T = s # rest" and "subObj st s = Some S"
      and "fs (sub_dir S) = Some (Dir names)"
      and "map (\<lambda>n. read_file fs (path_join (sub_dir S) n)) (sort names) = map Some contents"
      and "\<not> below (sub_dir S) (path_join (dir T) (name T))"
  shows "\<exists>fs'. onTaskFinish st t fs = Inr fs' \<and>
           fs_readdir (sub_dir S) fs = Inr (sort names) \<and>
           read_file fs' (path_join (dir T) (name T)) = Some (concat contents) \<and>
           fs' (sub_dir S) = None \<and>
           list_all (\<lambda>n. fs' (path_join (sub_dir S) n) = None) names"
proof -
  let ?d = "sub_dir S"
  let ?target = "path_join (dir T) (name T)"
  let ?files = "map (path_join ?d) (sort names)"
  have listing: "fs_readdir ?d fs = Inr (sort names)"
    using assms(6) by (simp add: fs_readdir_def)
  have readable: "map (read_file fs) ?files = map Some contents"
    using assms(7) by (simp add: comp_def)
  have merged: "merge_files ?files ?target fs = Inr (fs(?target \<mapsto> File (concat contents)))"
    using find_unreadable_None [OF readable] contents_of_map [OF readable]
    by (simp add: merge_files_def)
  have result: "onTaskFinish st t fs =
                Inr (fs_remove ?d (fs(?target \<mapsto> File (concat contents))))"
    using assms(1-5) listing merged by (simp add: onTaskFinish_def Let_def)
  have target: "read_file (fs_remove ?d (fs(?target \<mapsto> File (concat contents)))) ?target =
                Some (concat contents)"
    using assms(8) by (simp add: read_file_def fs_remove_def)
  have gone: "fs_remove ?d (fs(?target \<mapsto> File (concat contents))) ?d = None"
    by (simp add: fs_remove_def below_def)
  have parts: "list_all (\<lambda>n. fs_remove ?d (fs(?target \<mapsto> File (concat contents)))
                               (path_join ?d n) = None) names"
    by (simp add: list_all_iff fs_remove_def below_entry)
  from result listing target gone parts show ?thesis by blast
qed

theorem merge_post_processing_witness:
  "fs_readdir ''dl/big.downloading'' parts_disk = Inr [''p1'', ''p2'', ''p3''] \<and>
   (\<exists>fs'. onTaskFinish folder_downloading 0 parts_disk = Inr fs' \<and>
           read_file fs' ''dl/big'' = Some ''ABC'' \<and>
           fs' ''dl/big.downloading'' = None \<and>
           list_all (\<lambda>n. fs' (path_join ''dl/big.downloading'' n) = None)
             [''p3'', ''p1'', ''p2''])"
proof -
  have T: "taskObj folder_downloading 0 =
           Some \<lparr>url = ''T'', urlType = Some URLfolder, name = ''big'', dir = ''dl'',
                 pwd = None, merge = Some True, tasks = 2 # [3, 4]\<rparr>"
    by code_simp
  have S: "subObj folder_downloading 2 =
           Some \<lparr>sub_url = ''u1'', sub_pwd = None, sub_dir = ''dl/big.downloading'',
                 sub_name = ''p1'', sub_resolve = Num 0, sub_status = pending,
                 sub_size = Num 3\<rparr>"
    by code_simp
  have d: "parts_disk ''dl/big.downloading'' = Some (Dir [''p3'', ''p1'', ''p2''])"
    by (simp add: parts_disk_def)
  have sorted: "sort [''p3'', ''p1'', ''p2''] = [''p1'', ''p2'', ''p3'']"
    by code_simp
  have c: "map (\<lambda>n. read_file parts_disk (path_join ''dl/big.downloading'' n))
             (sort [''p3'', ''p1'', ''p2'']) = map Some [''A'', ''B'', ''C'']"
    unfolding sorted by (simp add: read_file_def parts_disk_def path_join_def)
  have nb: "\<not> below ''dl/big.downloading'' (path_join ''dl'' ''big'')"
    by (simp add: below_def path_join_def)
  have "\<exists>fs'. onTaskFinish folder_downloading 0 parts_disk = Inr fs' \<and>
           fs_readdir ''dl/big.downloading'' parts_disk = Inr [''p1'', ''p2'', ''p3''] \<and>
           read_file fs' (path_join ''dl'' ''big'') = Some (concat [''A'', ''B'', ''C'']) \<and>
           fs' ''dl/big.downloading'' = None \<and>
           list_all (\<lambda>n. fs' (path_join ''dl/big.downloading'' n) = None)
             [''p3'', ''p1'', ''p2'']"
    using merge_post_processing [OF T _ _ _ S, of "[3, 4]" parts_disk
            "[''p3'', ''p1'', ''p2'']" "[''A'', ''B'', ''C'']"] d c nb
    unfolding sorted by simp
  then show ?thesis by (auto simp add: path_join_def)
qed

subsection \<open>The transitions of a subtask's status\<close>

lemma grows_refl: "grows st st"
  by (simp add: grows_def)

lemma grows_same: "transitions st' = transitions st \<Longrightarrow> grows st st'"
  by (simp add: grows_def)

lemma grows_trans: "grows st st' \<Longrightarrow> grows st' st'' \<Longrightarrow> grows st st''"
  by (auto simp add: grows_def)

lemma grows_keep: "grows st st' \<Longrightarrow> transitions st'' = transitions st' \<Longrightarrow> grows st st''"
  by (simp add: grows_def)

lemma grows_fold:
  assumes "\<And>x s. grows s (f x s)"
  shows "grows st (fold f xs st)"
proof (induction xs arbitrary: st)
  case Nil
  show ?case by (simp add: grows_refl)
next
  case (Cons x xs)
  have "grows st (f x st)" by (rule assms)
  moreover have "grows (f x st) (fold f xs (f x st))" by (rule Cons.IH)
  ultimately show ?case by (simp add: grows_trans)
qed

lemma grows_set_status:
  assumes "\<And>a. status_of st r = Some a \<Longrightarrow> code_edge a v"
  shows "grows st (set_status r v st)"
proof (cases "subObj st r")
  case None
  then show ?thesis by (simp add: set_status_def grows_refl)
next
  case (Some S)
  then have "code_edge (sub_status S) v" using assms by (simp add: status_of_def)
  with Some show ?thesis by (simp add: set_status_def grows_def)
qed

lemma transitions_suspend [simp]: "transitions (suspend c st) = transitions st"
  by (simp add: suspend_def)

lemma transitions_resume [simp]: "transitions (resume k st) = transitions st"
  by (simp add: resume_def)

lemma status_of_resume [simp]: "status_of (resume k st) r = status_of st r"
  by (simp add: resume_def status_of_def)

lemma transitions_abortTask [simp]: "transitions (fst (abortTask s st)) = transitions st"
  by (simp add: abortTask_def split: option.splits)

lemma grows_start_subTask: "grows st (start_subTask t st)"
proof (cases "List.find (\<lambda>r. status_of st r = Some ready) (task_subs st t)")
  case None
  then show ?thesis by (simp add: start_subTask_def grows_refl)
next
  case (Some s)
  then have "status_of st s = Some ready" by (auto simp add: find_Some_iff)
  then have "grows st (set_status s pending st)"
    by (intro grows_set_status) (simp add: code_edge_def claimed_edge_def)
  then show ?thesis using Some by (simp add: start_subTask_def grows_keep)
qed

lemma grows_reset_subTask: "grows st (reset_subTask r st)"
  unfolding reset_subTask_def
  by (auto intro!: grows_set_status simp add: grows_refl code_edge_def claimed_edge_def)

lemma grows_start: "grows st (start u reset st)"
proof -
  have r: "grows st (fold reset_subTask xs st)" for xs
    by (rule grows_fold) (rule grows_reset_subTask)
  show ?thesis
    unfolding start_def
    by (auto split: option.splits
        intro: grows_refl grows_same grows_start_subTask grows_trans [OF r grows_start_subTask])
qed

lemma grows_checkTask: "grows st (checkTask st)"
  unfolding checkTask_def
  by (auto split: option.splits intro: grows_refl grows_start)

lemma grows_startAll_task: "grows st (startAll_task t st)"
proof -
  have m: "grows s (if status_of s r = Some pause then set_status r ready s else s)" for r s
    by (auto intro!: grows_set_status simp add: grows_refl code_edge_def claimed_edge_def)
  have f: "grows st (fold (\<lambda>r s. if status_of s r = Some pause then set_status r ready s else s)
                      xs st)" for xs
    by (rule grows_fold) (rule m)
  show ?thesis
    unfolding startAll_task_def Let_def
    by (auto split: option.splits intro: f grows_trans [OF f grows_start])
qed

lemma grows_startAll: "grows st (startAll st)"
  unfolding startAll_def by (rule grows_fold) (rule grows_startAll_task)

lemma grows_pause_subTask: "grows (fst acc) (fst (pause_subTask s acc))"
proof (cases acc)
  case (Pair st resolved)
  show ?thesis
  proof (cases "status_of st s = Some ready \<or> status_of st s = Some pending")
    case True
    then have "grows st (set_status s pause st)"
      by (intro grows_set_status) (auto simp add: code_edge_def claimed_edge_def)
    then have "grows st (fst (abortTask s (set_status s pause st)))"
      by (rule grows_keep) simp
    with True Pair show ?thesis by (simp add: pause_subTask_def case_prod_beta)
  next
    case False
    with Pair show ?thesis by (simp add: pause_subTask_def grows_refl)
  qed
qed

lemma grows_fold_pause: "grows (fst acc) (fst (fold pause_subTask xs acc))"
proof (induction xs arbitrary: acc)
  case Nil
  show ?case by (simp add: grows_refl)
next
  case (Cons x xs)
  show ?case using grows_pause_subTask [of acc x] Cons.IH [of "pause_subTask x acc"]
    by (simp add: grows_trans)
qed

lemma grows_pause_task: "grows st (fst (pause_task u st))"
  unfolding pause_task_def
  using grows_fold_pause [of "(st, True)"]
  by (auto split: option.splits simp add: grows_refl)

lemma grows_pauseAll: "grows st (pauseAll st)"
  unfolding pauseAll_def
  by (rule grows_fold) (auto split: option.splits simp add: grows_refl grows_pause_task)

lemma transitions_fold_abort [simp]:
  "transitions (fold (\<lambda>s acc. fst (abortTask s acc)) xs st) = transitions st"
  by (induction xs arbitrary: st) simp_all

lemma transitions_remove [simp]: "transitions (remove u st) = transitions st"
  by (simp add: remove_def Let_def split: option.splits)

lemma transitions_removeAll [simp]: "transitions (removeAll st) = transitions st"
proof -
  have "transitions (fold (\<lambda>t acc. fold (\<lambda>s acc'. fst (abortTask s acc')) (task_subs acc t) acc)
                       xs st) = transitions st" for xs
    by (induction xs arbitrary: st) simp_all
  then show ?thesis by (simp add: removeAll_def)
qed

lemma transitions_addTask [simp]:
  "transitions (fst (addTask P opts existsSync confirmed st)) = transitions st"
  by (simp add: addTask_def pushAndCheckList_def push_task_def)

lemma transitions_initTask [simp]: "transitions (initTask P t L st) = transitions st"
  by (simp add: initTask_def Let_def split: option.splits)

lemma transitions_start_pipeline [simp]:
  "transitions (start_pipeline P t s h st) = transitions st"
  by (simp add: start_pipeline_def Let_def split: option.splits)

lemma grows_start_catch:
  assumes "status_of st s = Some pending"
  shows "grows st (start_catch t s st)"
  unfolding start_catch_def Let_def
  using assms by (intro grows_set_status) (auto simp add: code_edge_def claimed_edge_def)

lemma grows_on_finish: "grows st (on_finish t st)"
  by (rule grows_same) (simp add: on_finish_def Let_def split: option.splits)

lemma grows_on_finish_task: "grows st (on_finish_task t s st)"
proof -
  have "grows st' (on_finish_task t s st)"
    if "transitions st' = transitions st" for st'
  proof -
    let ?st1 = "case subObj st s of None \<Rightarrow> st
                | Some S \<Rightarrow> st\<lparr>taskSignal := (taskSignal st)(sub_url S := None)\<rparr>"
    have a: "transitions ?st1 = transitions st'" using that by (simp split: option.splits)
    have b: "grows ?st1 (on_finish_task t s st)"
      unfolding on_finish_task_def Let_def
      by (auto split: option.splits intro: grows_on_finish grows_start grows_refl)
    from a b show ?thesis by (simp add: grows_def)
  qed
  then show ?thesis by simp
qed

lemma grows_step:
  assumes "still_pending st e"
  shows "grows st (step P e st)"
proof -
  have from_same: "grows st st''" if "transitions st' = transitions st" "grows st' st''"
    for st' st''
    using that by (simp add: grows_def)
  have catch: "grows st (start_catch t s (resume k st))"
    if "status_of st s = Some pending" for t s k
    by (rule from_same [of "resume k st"]) (simp_all add: grows_start_catch that)
  show ?thesis
  proof (cases e)
    case (AddTask opts existsSync confirmed)
    then show ?thesis by (simp add: grows_same)
  next
    case (Start u reset)
    then show ?thesis by (simp add: grows_start)
  next
    case StartAll
    then show ?thesis by (simp add: grows_startAll)
  next
    case (Pause u)
    then show ?thesis by (simp add: grows_pause_task)
  next
    case PauseAll
    then show ?thesis by (simp add: grows_pauseAll)
  next
    case (Remove u)
    then show ?thesis by (simp add: grows_same)
  next
    case RemoveAll
    then show ?thesis by (simp add: grows_same)
  next
    case RemoveAllFinish
    then show ?thesis by (simp add: grows_same removeAllFinish_def)
  next
    case CheckTask
    then show ?thesis by (simp add: grows_refl grows_checkTask)
  next
    case (FsRemoveSettled k res)
    then show ?thesis
      by (auto intro!: grows_same simp add: push_task_def split: option.splits cont.splits)
  next
    case (ListingSettled k res)
    have "grows st (start_subTask t (initTask P t L (resume k st)))" for t L
      by (rule from_same [OF _ grows_start_subTask]) simp
    with ListingSettled show ?thesis
      by (auto intro: grows_same grows_refl split: option.splits cont.splits sum.splits)
  next
    case (DownUrlSettled k res)
    with assms catch show ?thesis
      by (auto intro: grows_same grows_refl simp add: still_pending_def
               split: option.splits cont.splits sum.splits)
  next
    case (EnsureDirSettled k res)
    with assms catch show ?thesis
      by (auto intro: grows_same grows_refl simp add: still_pending_def
               split: option.splits cont.splits)
  next
    case (StreamSettled k net)
    with assms catch show ?thesis
      by (auto intro: grows_same grows_refl simp add: still_pending_def
               split: option.splits cont.splits stream_outcome.splits)
  next
    case (DownloadProgress k n)
    then show ?thesis
      by (auto intro!: grows_same split: option.splits cont.splits)
  next
    case (PipelineSettled k res)
    have fin: "grows st (on_finish_task t s (set_status s finish (resume k st)))"
      if "status_of st s = Some pending" for t s
    proof -
      have "grows (resume k st) (set_status s finish (resume k st))"
        using that by (intro grows_set_status) (simp add: code_edge_def claimed_edge_def)
      then have "grows (resume k st) (on_finish_task t s (set_status s finish (resume k st)))"
        using grows_on_finish_task by (rule grows_trans)
      then show ?thesis by (rule from_same [rotated]) simp
    qed
    from PipelineSettled assms catch fin show ?thesis
      by (auto intro: grows_refl simp add: still_pending_def split: option.splits cont.splits)
  next
    case (PostProcessSettled k)
    then show ?thesis
      by (auto intro!: grows_same split: option.splits cont.splits)
  qed
qed

text \<open>
  C3, as the claim states it: no operation changes a status along an edge outside
  the six. \<^verbatim>\<open>pause\<close> takes every subtask that is ready or pending to pause: in the
  folder \<open>T\<close> the two parts that wait in ready go from ready to pause.
\<close>

theorem pause_of_ready_counterexample:
  "new_transitions folder_downloading (step plain_helpers (Pause ''T'') folder_downloading) =
     [(2, pending, pause), (3, ready, pause), (4, ready, pause)] \<and>
   \<not> claimed_edge ready pause"
  by code_simp

text \<open>
  C3, amended. Every assignment to a subtask's status made by an event (a public
  operation, a tick of the queue, the settling of a suspended call) goes along one
  of the six edges or from ready to pause, provided that the subtask of a transfer
  that settles is still pending at that moment.
\<close>

theorem transitions_along_edges:
  assumes "still_pending st e"
  shows "list_all (\<lambda>(r, a, b). code_edge a b) (new_transitions st (step P e st))"
  using grows_step [OF assms, of P] by (auto simp add: grows_def new_transitions_def)

theorem transitions_along_edges_witness:
  "still_pending folder_downloading (PipelineSettled 9 None) \<and>
   new_transitions folder_downloading
     (step plain_helpers (PipelineSettled 9 None) folder_downloading) =
     [(2, pending, finish), (3, ready, pending)] \<and>
   list_all (\<lambda>(r, a, b). code_edge a b)
     (new_transitions folder_downloading
        (step plain_helpers (PipelineSettled 9 None) folder_downloading))"
proof -
  have a: "still_pending folder_downloading (PipelineSettled 9 None)" by code_simp
  have b: "new_transitions folder_downloading
     (step plain_helpers (PipelineSettled 9 None) folder_downloading) =
     [(2, pending, finish), (3, ready, pending)]" by code_simp
  from a b transitions_along_edges [OF a, of plain_helpers] show ?thesis by simp
qed

subsection \<open>Resuming with startAll\<close>

lemma status_of_set_status:
  "status_of (set_status r v st) r' =
     (if r' = r \<and> subObj st r \<noteq> None then Some v else status_of st r')"
  by (auto simp add: set_status_def status_of_def split: option.splits)

lemma status_of_suspend [simp]: "status_of (suspend c st) r = status_of st r"
  by (simp add: suspend_def status_of_def)

lemma taskObj_set_status [simp]: "taskObj (set_status r v st) = taskObj st"
  by (simp add: set_status_def split: option.splits)

lemma taskObj_suspend [simp]: "taskObj (suspend c st) = taskObj st"
  by (simp add: suspend_def)

lemma grows_mem:
  assumes "grows s s'" and "x \<in> set (new_transitions st s)"
  shows "x \<in> set (new_transitions st s')"
proof -
  from assms(1) obtain ys where "transitions s' = transitions s @ ys"
    by (auto simp add: grows_def)
  with assms(2) show ?thesis by (simp add: new_transitions_def)
qed

lemma start_subTask_status:
  "status_of (start_subTask t s) r = status_of s r \<or>
   (status_of s r = Some ready \<and> status_of (start_subTask t s) r = Some pending)"
proof (cases "List.find (\<lambda>r. status_of s r = Some ready) (task_subs s t)")
  case None
  then show ?thesis by (simp add: start_subTask_def)
next
  case (Some x)
  then have "status_of s x = Some ready" by (auto simp add: find_Some_iff)
  with Some show ?thesis
    by (auto simp add: start_subTask_def status_of_set_status)
qed

lemma start_status:
  "status_of (start u False s) r = status_of s r \<or>
   (status_of s r = Some ready \<and> status_of (start u False s) r = Some pending)"
  using start_subTask_status [of _ s r]
  by (simp add: start_def split: option.splits)

lemma taskObj_start_subTask [simp]: "taskObj (start_subTask t s) = taskObj s"
  by (simp add: start_subTask_def split: option.splits)

lemma taskObj_start [simp]: "taskObj (start u False s) = taskObj s"
  by (simp add: start_def split: option.splits)

lemma resumed_start:
  assumes "resumed r st s"
  shows "resumed r st (start u False s)"
  using assms start_status [of u s r] grows_mem [OF grows_start [of s u False], of _ st]
  by (auto simp add: resumed_def)

lemma grows_mark:
  "grows s (if status_of s r = Some pause then set_status r ready s else s)"
  by (auto intro!: grows_set_status simp add: grows_refl code_edge_def claimed_edge_def)

lemma grows_fold_mark:
  "grows s (fold (\<lambda>r s. if status_of s r = Some pause then set_status r ready s else s) xs s)"
  by (rule grows_fold) (rule grows_mark)

lemma taskObj_fold_mark [simp]:
  "taskObj (fold (\<lambda>r s. if status_of s r = Some pause then set_status r ready s else s) xs s) =
   taskObj s"
  by (induction xs arbitrary: s) simp_all

lemma resumed_mark:
  assumes "resumed r st s"
  shows "resumed r st (if status_of s r' = Some pause then set_status r' ready s else s)"
proof -
  let ?s' = "if status_of s r' = Some pause then set_status r' ready s else s"
  from assms have st: "status_of s r = Some ready \<or> status_of s r = Some pending"
    by (simp add: resumed_def)
  then have "status_of ?s' r = status_of s r"
    by (auto simp add: status_of_set_status)
  moreover have "(r, pause, ready) \<in> set (new_transitions st ?s')"
    using assms grows_mem [OF grows_mark [of s r']] by (simp add: resumed_def)
  ultimately show ?thesis using st by (simp add: resumed_def)
qed

lemma resumed_fold_mark:
  assumes "resumed r st s"
  shows "resumed r st
           (fold (\<lambda>r s. if status_of s r = Some pause then set_status r ready s else s) xs s)"
  using assms by (induction xs arbitrary: s) (simp_all add: resumed_mark del: if_split)

lemma mark_paused:
  assumes "grows st s" and "status_of s r = Some pause"
  shows "resumed r st (set_status r ready s)"
proof -
  from assms(2) obtain S where S: "subObj s r = Some S" "sub_status S = pause"
    by (auto simp add: status_of_def)
  from assms(1) obtain xs where xs: "transitions s = transitions st @ xs"
    by (auto simp add: grows_def)
  from S xs have "transitions (set_status r ready s) = transitions st @ xs @ [(r, pause, ready)]"
    by (simp add: set_status_def)
  then have "(r, pause, ready) \<in> set (new_transitions st (set_status r ready s))"
    by (simp add: new_transitions_def)
  moreover have "status_of (set_status r ready s) r = Some ready"
    using S by (simp add: status_of_set_status)
  ultimately show ?thesis by (simp add: resumed_def)
qed

lemma paused_fold_mark:
  assumes "grows st s" and "status_of s r = Some pause"
  shows "if r \<in> set xs
         then resumed r st
                (fold (\<lambda>r s. if status_of s r = Some pause then set_status r ready s else s) xs s)
         else status_of
                (fold (\<lambda>r s. if status_of s r = Some pause then set_status r ready s else s) xs s)
                r = Some pause"
  using assms
proof (induction xs arbitrary: s)
  case Nil
  then show ?case by simp
next
  case (Cons x xs)
  let ?s' = "if status_of s x = Some pause then set_status x ready s else s"
  have g: "grows st ?s'" using Cons.prems(1) grows_mark [of s x] by (rule grows_trans)
  show ?case
  proof (cases "x = r")
    case True
    then have "resumed r st ?s'" using mark_paused [OF Cons.prems] Cons.prems(2) by simp
    then have "resumed r st
       (fold (\<lambda>r s. if status_of s r = Some pause then set_status r ready s else s) xs ?s')"
      by (rule resumed_fold_mark)
    with True Cons.prems(2) show ?thesis by simp
  next
    case False
    then have "status_of ?s' r = Some pause"
      using Cons.prems(2) by (simp add: status_of_set_status)
    from Cons.IH [OF g this] False show ?thesis by simp
  qed
qed

lemma taskObj_startAll_task [simp]: "taskObj (startAll_task t s) = taskObj s"
  by (simp add: startAll_task_def Let_def split: option.splits)

lemma resumed_startAll_task:
  assumes "resumed r st s"
  shows "resumed r st (startAll_task t s)"
  using resumed_fold_mark [OF assms] resumed_start
  by (simp add: startAll_task_def Let_def split: option.splits)

lemma paused_startAll_task:
  assumes "grows st s" and "status_of s r = Some pause"
  shows "if r \<in> set (task_subs s t) then resumed r st (startAll_task t s)
         else status_of (startAll_task t s) r = Some pause"
proof (cases "r \<in> set (task_subs s t)")
  case True
  then have "resumed r st
     (fold (\<lambda>r s. if status_of s r = Some pause then set_status r ready s else s)
        (task_subs s t) s)"
    using paused_fold_mark [OF assms, of "task_subs s t"] by simp
  then show ?thesis using True resumed_start
    by (simp add: startAll_task_def Let_def split: option.splits)
next
  case False
  let ?m = "fold (\<lambda>r s. if status_of s r = Some pause then set_status r ready s else s)
              (task_subs s t) s"
  have p: "status_of ?m r = Some pause"
    using paused_fold_mark [OF assms, of "task_subs s t"] False by simp
  have "status_of (start u False ?m) r = Some pause" for u
    using start_status [of u ?m r] p by auto
  with p False show ?thesis
    by (simp add: startAll_task_def Let_def split: option.splits)
qed

lemma fold_startAll_task:
  assumes "grows st s" and "taskObj s = taskObj st"
      and "resumed r st s \<or>
           (status_of s r = Some pause \<and> list_ex (\<lambda>t. r \<in> set (task_subs st t)) ts)"
  shows "resumed r st (fold startAll_task ts s)"
  using assms
proof (induction ts arbitrary: s)
  case Nil
  then show ?case by simp
next
  case (Cons t ts)
  let ?s' = "startAll_task t s"
  have g: "grows st ?s'" using Cons.prems(1) grows_startAll_task by (rule grows_trans)
  have o: "taskObj ?s' = taskObj st" using Cons.prems(2) by simp
  have subs: "task_subs s t = task_subs st t" using Cons.prems(2) by (simp add: task_subs_def)
  have "resumed r st ?s' \<or>
        (status_of ?s' r = Some pause \<and> list_ex (\<lambda>t. r \<in> set (task_subs st t)) ts)"
  proof (cases "resumed r st s")
    case True
    then show ?thesis by (simp add: resumed_startAll_task)
  next
    case False
    with Cons.prems(3) have p: "status_of s r = Some pause"
      and ex: "list_ex (\<lambda>t. r \<in> set (task_subs st t)) (t # ts)" by simp_all
    show ?thesis
      using paused_startAll_task [OF Cons.prems(1) p, of t] ex subs
      by (auto split: if_splits)
  qed
  from Cons.IH [OF g o this] show ?case by simp
qed

lemma failed_startAll_task:
  assumes "status_of s r = Some fail"
  shows "status_of (startAll_task t s) r = Some fail"
proof -
  have one: "status_of (if status_of s' a = Some pause then set_status a ready s' else s') r =
             Some fail" if "status_of s' r = Some fail" for a s'
    using that by (auto simp add: status_of_set_status)
  have m: "status_of (fold (\<lambda>r s. if status_of s r = Some pause then set_status r ready s else s)
                        xs s) r = Some fail" for xs
    using assms by (induction xs arbitrary: s) (simp_all add: one del: if_split)
  have "status_of (start u False s') r = Some fail" if "status_of s' r = Some fail" for u s'
    using start_status [of u s' r] that by auto
  with m show ?thesis by (simp add: startAll_task_def Let_def split: option.splits)
qed

text \<open>
  C5, as the claim states it: \<^verbatim>\<open>startAll\<close> takes failed subtasks back to ready as
  well. It only resets the subtasks in pause and calls \<^verbatim>\<open>start\<close> without \<^verbatim>\<open>reset\<close>:
  the failed subtask of the file share stays failed and no status is assigned.
\<close>

theorem startAll_keeps_failed_counterexample:
  "list file_failed = [0] \<and> task_subs file_failed 0 = [2] \<and>
   status_of file_failed 2 = Some fail \<and>
   status_of (startAll file_failed) 2 = Some fail \<and>
   new_transitions file_failed (startAll file_failed) = []"
  by code_simp

text \<open>
  C5, amended. For every task of the active list, \<^verbatim>\<open>startAll\<close> takes every subtask
  that is in pause back to ready (the subtask is then ready, or pending if
  \<^verbatim>\<open>startAll\<close> has started it at once); a subtask in fail stays in fail.
\<close>

theorem startAll_resumes_paused:
  assumes "t \<in> set (list st)" and "r \<in> set (task_subs st t)"
  shows "(status_of st r = Some pause \<longrightarrow>
            (r, pause, ready) \<in> set (new_transitions st (startAll st)) \<and>
            (status_of (startAll st) r = Some ready \<or>
             status_of (startAll st) r = Some pending)) \<and>
         (status_of st r = Some fail \<longrightarrow> status_of (startAll st) r = Some fail)"
proof (intro conjI impI)
  assume p: "status_of st r = Some pause"
  from assms have "list_ex (\<lambda>t. r \<in> set (task_subs st t)) (list st)"
    by (auto simp add: list_ex_iff)
  with p have "resumed r st (fold startAll_task (list st) st)"
    by (intro fold_startAll_task) (simp_all add: grows_refl)
  then show "(r, pause, ready) \<in> set (new_transitions st (startAll st))"
    and "status_of (startAll st) r = Some ready \<or> status_of (startAll st) r = Some pending"
    by (simp_all add: resumed_def startAll_def)
next
  assume f: "status_of st r = Some fail"
  have "status_of (fold startAll_task ts s) r = Some fail" if "status_of s r = Some fail"
    for ts s
    using that by (induction ts arbitrary: s) (simp_all add: failed_startAll_task)
  with f show "status_of (startAll st) r = Some fail" by (simp add: startAll_def)
qed

theorem startAll_resumes_paused_witness:
  "0 \<in> set (list folder_paused) \<and> 3 \<in> set (task_subs folder_paused 0) \<and>
   status_of folder_paused 3 = Some pause \<and>
   (3, pause, ready) \<in> set (new_transitions folder_paused (startAll folder_paused)) \<and>
   (status_of (startAll folder_paused) 3 = Some ready \<or>
    status_of (startAll folder_paused) 3 = Some pending) \<and>
   0 \<in> set (list file_failed) \<and> 2 \<in> set (task_subs file_failed 0) \<and>
   status_of file_failed 2 = Some fail \<and>
   status_of (startAll file_failed) 2 = Some fail"
proof -
  have a: "0 \<in> set (list folder_paused)" by code_simp
  have b: "3 \<in> set (task_subs folder_paused 0)" by code_simp
  have c: "status_of folder_paused 3 = Some pause" by code_simp
  have d: "0 \<in> set (list file_failed)" by code_simp
  have e: "2 \<in> set (task_subs file_failed 0)" by code_simp
  have f: "status_of file_failed 2 = Some fail" by code_simp
  from a b c d e f startAll_resumes_paused [OF a b] startAll_resumes_paused [OF d e]
  show ?thesis by simp
qed

end
